theory Spec2Isabelle
  imports Complex_Main
begin

section \<open>Python strings\<close>

text \<open>
  A Python \<open>str\<close> is modelled as a \<open>string\<close>; a \<open>char\<close> is read as the code point
  0..255 it encodes. On that range \<open>str.lower\<close> moves \<open>A..Z\<close> and the Latin-1 capitals
  (0xC0..0xDE without 0xD7) up by 32, and \<open>str.isspace\<close> holds of the twelve code
  points listed in \<open>is_space\<close>.
\<close>

definition is_space :: "char \<Rightarrow> bool" where
  "is_space c = ((of_char c :: nat) \<in> {9, 10, 11, 12, 13, 28, 29, 30, 31, 32, 133, 160})"

definition lower_char :: "char \<Rightarrow> char" where
  "lower_char c = (let n = (of_char c :: nat) in
     if (65 \<le> n \<and> n \<le> 90) \<or> (192 \<le> n \<and> n \<le> 222 \<and> n \<noteq> 215)
     then char_of (n + 32) else c)"

text \<open>\<open>s.lower()\<close>\<close>

definition py_lower :: "string \<Rightarrow> string" where
  "py_lower s = map lower_char s"

text \<open>\<open>s.strip()\<close>: leading and trailing whitespace removed.\<close>

definition py_strip :: "string \<Rightarrow> string" where
  "py_strip s = rev (dropWhile is_space (rev (dropWhile is_space s)))"

text \<open>\<open>s.startswith(p)\<close>\<close>

fun starts_with :: "string \<Rightarrow> string \<Rightarrow> bool" where
  "starts_with s [] = True"
| "starts_with [] (p # ps) = False"
| "starts_with (c # cs) (p # ps) = (c = p \<and> starts_with cs ps)"

text \<open>\<open>p in s\<close> on strings: \<open>p\<close> occurs in \<open>s\<close> as a contiguous substring.\<close>

fun py_in :: "string \<Rightarrow> string \<Rightarrow> bool" where
  "py_in p [] = (p = [])"
| "py_in p (c # cs) = (starts_with (c # cs) p \<or> py_in p cs)"

text \<open>
  \<open>s.split()\<close> without arguments: the maximal runs of non-whitespace characters, in
  order. The second argument holds the current run, reversed.
\<close>

fun split_aux :: "string \<Rightarrow> string \<Rightarrow> string list" where
  "split_aux [] cur = (if cur = [] then [] else [rev cur])"
| "split_aux (c # cs) cur =
     (if is_space c then (if cur = [] then split_aux cs [] else rev cur # split_aux cs [])
      else split_aux cs (c # cur))"

definition py_split :: "string \<Rightarrow> string list" where
  "py_split s = split_aux s []"

text \<open>\<open>s.replace(old, new)\<close>: every non-overlapping occurrence, from the left.\<close>

fun py_replace :: "string \<Rightarrow> string \<Rightarrow> string \<Rightarrow> string" where
  "py_replace old new [] = (if old = [] then new else [])"
| "py_replace old new (c # cs) =
     (if old = [] then new @ c # py_replace old new cs
      else if starts_with (c # cs) old
        then new @ py_replace old new (drop (length old) (c # cs))
      else c # py_replace old new cs)"

section \<open>Configuration\<close>

text \<open>
  \<open>config\<close> is a dictionary from key to value; \<open>config.get(key, default)\<close> falls back
  to the default when the key is absent. The values are read at the types
  \<open>DEFAULT_CONFIG\<close> gives them.
\<close>

datatype cfg_value = CInt int | CBool bool | CStr string | CList "string list"

type_synonym config = "string \<rightharpoonup> cfg_value"

definition get_int :: "config \<Rightarrow> string \<Rightarrow> int \<Rightarrow> int" where
  "get_int cfg k d = (case cfg k of Some (CInt n) \<Rightarrow> n | _ \<Rightarrow> d)"

definition get_bool :: "config \<Rightarrow> string \<Rightarrow> bool \<Rightarrow> bool" where
  "get_bool cfg k d = (case cfg k of Some (CBool b) \<Rightarrow> b | _ \<Rightarrow> d)"

definition get_list :: "config \<Rightarrow> string \<Rightarrow> string list \<Rightarrow> string list" where
  "get_list cfg k d = (case cfg k of Some (CList xs) \<Rightarrow> xs | _ \<Rightarrow> d)"

definition DEFAULT_CONFIG :: config where
  "DEFAULT_CONFIG =
     [''prompt'' \<mapsto> CStr ''PS %dir%> '',
      ''cmd_timeout'' \<mapsto> CInt 15,
      ''save_history'' \<mapsto> CBool True,
      ''high_risk_commands'' \<mapsto> CList [''rm -rf /'', ''format c:'', ''del *.* /q''],
      ''max_history_size'' \<mapsto> CInt 1000]"

section \<open>Risk classifier\<close>

definition high_risk_patterns :: "string list" where
  "high_risk_patterns =
     [''rm -rf'', ''rm -r *'', ''sudo rm'', ''dd if='', ''mkfs.'',
      ''del *'', ''rd /s /q'', ''format '', ''rmdir /s /q'',
      ''>:'']"

definition is_high_risk_command :: "config \<Rightarrow> string \<Rightarrow> bool" where
  "is_high_risk_command cfg cmd =
     (let cmd_lower = py_strip (py_lower cmd) in
      if list_ex (\<lambda>pattern. py_in pattern cmd_lower) high_risk_patterns then True
      else list_ex (\<lambda>risk_cmd. py_in (py_lower risk_cmd) cmd_lower)
             (get_list cfg ''high_risk_commands'' []))"

section \<open>What a run of the program can observe and do\<close>

text \<open>
  The texts the program prints are kept as constructors that carry the values
  interpolated into them, not as the (Chinese) wording itself.
\<close>

datatype msg =
    Raw string
  | RiskPrompt string
  | Cancelled
  | TimeoutMsg string int
  | PermissionMsg string
  | NotFoundMsg string
  | OSErrorMsg string string
  | OtherErrorMsg string
  | RmUsage
  | RmRiskPrompt string
  | RmCancelled
  | DirMissing string
  | AutoConfirmMsg string
  | DirPrompt string
  | DeleteCancelled
  | DirDeleted string
  | DirPermission string
  | DirFailed string
  | FileMissing string
  | FilePrompt string
  | FileDeleted string
  | FilePermission string
  | FileFailed string
  | KaliHeader
  | KaliItem string
  | KaliFooter
  | KaliNote
  | HelpText
  | SaveHistoryWarning string

text \<open>How \<open>subprocess.run\<close> is called: a shell string, or an argument vector.\<close>

datatype invocation = Shell string | Argv "string list"

text \<open>The exceptions \<open>subprocess.run\<close> raises that \<open>execute_command\<close> tells apart.\<close>

datatype run_exn =
    TimeoutExpired
  | PermissionError
  | FileNotFoundError
  | OSError string
  | ValueError
  | OtherError string

text \<open>
  What the operating system does with an invocation: the child exits after so many
  seconds with its standard output and standard error, never exits, or the call raises
  before any child runs.
\<close>

datatype behaviour = Exits nat string string | Hangs | Fails run_exn

datatype del_result = DelOk | DelPermissionError | DelError string

text \<open>The exceptions that leave a handler.\<close>

datatype exn = EOFError | KeyError string | IndexError | TypeError | CwdError

datatype event =
    Prompt msg
  | Stdout msg
  | Stderr msg
  | Spawn invocation int
  | Killed invocation
  | Rmtree string
  | Remove string
  | WriteFile string "string list"
  | ClearScreen
  | BuiltinEffect string string

text \<open>The command-line arguments \<open>ARGS\<close>, once \<open>main\<close> has parsed them.\<close>

record args =
  args_command :: "string option"
  args_yes :: bool
  args_quiet :: bool
  args_no_history :: bool

text \<open>
  Everything outside the program that one call reads: the platform, the file system,
  the processes, the environment variables and the global \<open>ARGS\<close>.
\<close>

record os_env =
  windows :: bool
  shlex_split :: "string \<Rightarrow> string list option"
  child :: "invocation \<Rightarrow> behaviour"
  isdir :: "string \<Rightarrow> bool"
  isfile :: "string \<Rightarrow> bool"
  path_exists :: "string \<Rightarrow> bool"
  rmtree_result :: "string \<Rightarrow> del_result"
  remove_result :: "string \<Rightarrow> del_result"
  environ :: "string \<rightharpoonup> string"
  getcwd :: "string option"
  history_write_error :: "string option"
  fs_builtin :: "string \<Rightarrow> string \<Rightarrow> event list"
  ARGS :: "args option"

text \<open>\<open>ARGS and ARGS.yes\<close>, as a truth value.\<close>

definition args_yes_set :: "os_env \<Rightarrow> bool" where
  "args_yes_set env = (case ARGS env of None \<Rightarrow> False | Some a \<Rightarrow> args_yes a)"

text \<open>
  \<open>input(prompt)\<close>: the prompt is written, then the next line of standard input is
  returned; at the end of input \<open>EOFError\<close> is raised.
\<close>

definition py_input :: "msg \<Rightarrow> string list \<Rightarrow> event list \<times> (exn + string \<times> string list)" where
  "py_input p stdin =
     ([Prompt p], (case stdin of [] \<Rightarrow> Inl EOFError | l # ls \<Rightarrow> Inr (l, ls)))"

section \<open>Process executor\<close>

text \<open>
  \<open>subprocess.run(..., capture_output=True, text=True, timeout=timeout)\<close>: a child that
  has not exited after \<open>timeout\<close> seconds is killed and \<open>TimeoutExpired\<close> is raised.
\<close>

definition subprocess_run ::
  "os_env \<Rightarrow> invocation \<Rightarrow> int \<Rightarrow> event list \<times> (run_exn + string \<times> string)" where
  "subprocess_run env iv timeout =
     (case child env iv of
        Exits d out err \<Rightarrow>
          if int d > timeout then ([Spawn iv timeout, Killed iv], Inl TimeoutExpired)
          else ([Spawn iv timeout], Inr (out, err))
      | Hangs \<Rightarrow> ([Spawn iv timeout, Killed iv], Inl TimeoutExpired)
      | Fails e \<Rightarrow> ([], Inl e))"

text \<open>
  The platform branch inside the \<open>try\<close>: a shell string on Windows; elsewhere the
  argument vector of \<open>shlex.split\<close>, and the shell string when \<open>shlex.split\<close> or the
  run of the vector raises \<open>ValueError\<close>.
\<close>

definition run_platform ::
  "os_env \<Rightarrow> string \<Rightarrow> int \<Rightarrow> event list \<times> (run_exn + string \<times> string)" where
  "run_platform env cmd timeout =
     (if windows env then subprocess_run env (Shell cmd) timeout
      else (case shlex_split env cmd of
              None \<Rightarrow> subprocess_run env (Shell cmd) timeout
            | Some cmd_parts \<Rightarrow>
                (case subprocess_run env (Argv cmd_parts) timeout of
                   (es, Inl ValueError) \<Rightarrow>
                     (let (es', r) = subprocess_run env (Shell cmd) timeout in (es @ es', r))
                 | (es, r) \<Rightarrow> (es, r))))"

text \<open>The printing after a run, and the \<open>except\<close> clauses.\<close>

definition report :: "string \<Rightarrow> int \<Rightarrow> (run_exn + string \<times> string) \<Rightarrow> event list" where
  "report cmd timeout r =
     (case r of
        Inr (out, err) \<Rightarrow>
          (if out \<noteq> [] then [Stdout (Raw out)] else []) @
          (if err \<noteq> [] then [Stderr (Raw err)] else [])
      | Inl TimeoutExpired \<Rightarrow> [Stderr (TimeoutMsg cmd timeout)]
      | Inl PermissionError \<Rightarrow> [Stderr (PermissionMsg cmd)]
      | Inl FileNotFoundError \<Rightarrow> [Stderr (NotFoundMsg cmd)]
      | Inl (OSError detail) \<Rightarrow> [Stderr (OSErrorMsg detail cmd)]
      | Inl ValueError \<Rightarrow> [Stderr (OtherErrorMsg ''ValueError'')]
      | Inl (OtherError detail) \<Rightarrow> [Stderr (OtherErrorMsg detail)])"

text \<open>One \<open>try ... except\<close> block of \<open>execute_command\<close>, with the timeout it read.\<close>

definition try_run :: "os_env \<Rightarrow> string \<Rightarrow> int \<Rightarrow> event list" where
  "try_run env cmd timeout =
     (let (es, r) = run_platform env cmd timeout in es @ report cmd timeout r)"

text \<open>
  The confirmation in front of a block: \<open>None\<close> when the command is not high-risk or
  the answer is \<open>y\<close>, otherwise how the function ends there.
\<close>

definition risk_gate ::
  "config \<Rightarrow> string \<Rightarrow> string list \<Rightarrow> event list \<times> string list \<times> (exn + unit) option" where
  "risk_gate cfg cmd stdin =
     (if is_high_risk_command cfg cmd then
        (case py_input (RiskPrompt cmd) stdin of
           (es, Inl e) \<Rightarrow> (es, stdin, Some (Inl e))
         | (es, Inr (confirm, rest)) \<Rightarrow>
             if py_lower confirm \<noteq> ''y'' then (es @ [Stdout Cancelled], rest, Some (Inr ()))
             else (es, rest, None))
      else ([], stdin, None))"

text \<open>
  \<open>execute_command\<close>. Its body holds the confirmation and the \<open>try\<close> block twice, one
  after the other; the first block reads the timeout under the key \<open>cmd_timeout\<close>, the
  second under the key \<open>command_timeout\<close>.
\<close>

definition execute_command ::
  "os_env \<Rightarrow> config \<Rightarrow> string \<Rightarrow> string list \<Rightarrow> (exn + unit) \<times> string list \<times> event list" where
  "execute_command env cfg cmd stdin =
     (case risk_gate cfg cmd stdin of
        (es1, stdin1, Some r) \<Rightarrow> (r, stdin1, es1)
      | (es1, stdin1, None) \<Rightarrow>
          (let es2 = try_run env cmd (get_int cfg ''cmd_timeout'' 15) in
           (case risk_gate cfg cmd stdin1 of
              (es3, stdin2, Some r) \<Rightarrow> (r, stdin2, es1 @ es2 @ es3)
            | (es3, stdin2, None) \<Rightarrow>
                (let es4 = try_run env cmd (get_int cfg ''command_timeout'' 15) in
                 (Inr (), stdin2, es1 @ es2 @ es3 @ es4)))))"

section \<open>Built-in handlers\<close>

text \<open>
  The answer to a confirmation: \<open>'y'\<close> without a prompt when \<open>auto\<close> holds, otherwise
  whatever \<open>input\<close> returns.
\<close>

definition confirm_or_input ::
  "bool \<Rightarrow> event list \<Rightarrow> msg \<Rightarrow> string list \<Rightarrow> event list \<times> (exn + string \<times> string list)" where
  "confirm_or_input auto notice p stdin =
     (if auto then (notice, Inr (''y'', stdin)) else py_input p stdin)"

text \<open>The high-risk test of \<open>handle_rm\<close>, on the lower-cased line.\<close>

definition rm_high_risk :: "string \<Rightarrow> bool" where
  "rm_high_risk command =
     (let full_command = py_lower command in
      py_in ''-rf'' full_command \<or> py_in ''-r *'' full_command \<or>
      py_in ''rd /s'' full_command \<or> py_in ''rmdir /s'' full_command)"

definition delete_dir :: "os_env \<Rightarrow> string \<Rightarrow> event list" where
  "delete_dir env target =
     (case rmtree_result env target of
        DelOk \<Rightarrow> [Rmtree target, Stdout (DirDeleted target)]
      | DelPermissionError \<Rightarrow> [Rmtree target, Stderr (DirPermission target)]
      | DelError detail \<Rightarrow> [Rmtree target, Stderr (DirFailed detail)])"

definition delete_file :: "os_env \<Rightarrow> string \<Rightarrow> event list" where
  "delete_file env target =
     (case remove_result env target of
        DelOk \<Rightarrow> [Remove target, Stdout (FileDeleted target)]
      | DelPermissionError \<Rightarrow> [Remove target, Stderr (FilePermission target)]
      | DelError detail \<Rightarrow> [Remove target, Stderr (FileFailed detail)])"

text \<open>
  The part of \<open>handle_rm\<close> after the high-risk confirmation: \<open>target0\<close> is the line
  without its first three characters, stripped.
\<close>

definition rm_delete ::
  "os_env \<Rightarrow> string \<Rightarrow> string \<Rightarrow> bool \<Rightarrow> string list \<Rightarrow> (exn + bool) \<times> string list \<times> event list" where
  "rm_delete env command target0 auto stdin =
     (let is_dir = (isdir env target0 \<or> py_in ''-r'' command) in
      if is_dir then
        (let target = py_strip (py_replace ''-r'' [] target0) in
         if \<not> path_exists env target then (Inr True, stdin, [Stderr (DirMissing target)])
         else
           (case confirm_or_input auto [Stdout (AutoConfirmMsg target)] (DirPrompt target) stdin of
              (es, Inl e) \<Rightarrow> (Inl e, stdin, es)
            | (es, Inr (confirm, rest)) \<Rightarrow>
                if py_lower confirm \<noteq> ''y'' then (Inr True, rest, es @ [Stdout DeleteCancelled])
                else (Inr True, rest, es @ delete_dir env target)))
      else
        (if \<not> isfile env target0 then (Inr True, stdin, [Stderr (FileMissing target0)])
         else
           (case confirm_or_input auto [Stdout (AutoConfirmMsg target0)] (FilePrompt target0) stdin of
              (es, Inl e) \<Rightarrow> (Inl e, stdin, es)
            | (es, Inr (confirm, rest)) \<Rightarrow>
                if py_lower confirm \<noteq> ''y'' then (Inr True, rest, es @ [Stdout DeleteCancelled])
                else (Inr True, rest, es @ delete_file env target0))))"

text \<open>\<open>handle_rm(command, auto_confirm)\<close>\<close>

definition handle_rm ::
  "os_env \<Rightarrow> string \<Rightarrow> bool \<Rightarrow> string list \<Rightarrow> (exn + bool) \<times> string list \<times> event list" where
  "handle_rm env command auto_confirm stdin =
     (let target = py_strip (drop 3 command);
          auto = (auto_confirm \<or> args_yes_set env) in
      if target = [] then (Inr True, stdin, [Stderr RmUsage])
      else if rm_high_risk command then
        (case confirm_or_input auto [] (RmRiskPrompt command) stdin of
           (es, Inl e) \<Rightarrow> (Inl e, stdin, es)
         | (es, Inr (confirm, rest)) \<Rightarrow>
             if py_lower confirm \<noteq> ''y'' then (Inr True, rest, es @ [Stdout RmCancelled])
             else (case rm_delete env command target auto rest of
                     (r, rest', es') \<Rightarrow> (r, rest', es @ es')))
      else rm_delete env command target auto stdin)"

text \<open>The keys of the dictionary \<open>kali_tools\<close> in \<open>handle_kali_tool\<close>, and the same sorted.\<close>

definition kali_tools :: "string list" where
  "kali_tools =
     [''nmap'', ''metasploit'', ''burpsuite'', ''wireshark'', ''john'',
      ''aircrack-ng'', ''sqlmap'', ''hydra'', ''nikto'', ''gobuster'']"

definition kali_tools_sorted :: "string list" where
  "kali_tools_sorted =
     [''aircrack-ng'', ''burpsuite'', ''gobuster'', ''hydra'', ''john'',
      ''metasploit'', ''nikto'', ''nmap'', ''sqlmap'', ''wireshark'']"

text \<open>
  \<open>handle_kali_tool(command)\<close>: the tool name is the first word of the line as it was
  typed.
\<close>

definition handle_kali_tool :: "string \<Rightarrow> (exn + bool) \<times> event list" where
  "handle_kali_tool command =
     (if command = [] then (Inr False, [])
      else (case py_split command of
              [] \<Rightarrow> (Inl IndexError, [])
            | tool_name # _ \<Rightarrow>
                if tool_name = ''kali_tools'' then
                  (Inr True, [Stdout KaliHeader] @ map (\<lambda>tool. Stdout (KaliItem tool)) kali_tools_sorted
                               @ [Stdout KaliFooter])
                else if tool_name \<in> set kali_tools then
                  (Inr True, [Stdout (KaliItem tool_name), Stdout KaliNote])
                else (Inr False, [])))"

text \<open>
  \<open>display_help\<close>: after the text, a line of input is awaited unless the program was
  started with a command or in quiet mode.
\<close>

definition display_help :: "os_env \<Rightarrow> string list \<Rightarrow> (exn + unit) \<times> string list \<times> event list" where
  "display_help env stdin =
     (if (case ARGS env of None \<Rightarrow> True
          | Some a \<Rightarrow> \<not> ((case args_command a of None \<Rightarrow> False | Some c \<Rightarrow> c \<noteq> []) \<or> args_quiet a))
      then (case stdin of
              [] \<Rightarrow> (Inl EOFError, stdin, [Stdout HelpText])
            | _ # rest \<Rightarrow> (Inr (), rest, [Stdout HelpText]))
      else (Inr (), stdin, [Stdout HelpText]))"

section \<open>History\<close>

text \<open>\<open>xs[-n:]\<close> for a positive \<open>n\<close>: the last \<open>n\<close> items, all of them when there are fewer.\<close>

definition py_last_n :: "nat \<Rightarrow> 'a list \<Rightarrow> 'a list" where
  "py_last_n n xs = drop (length xs - n) xs"

text \<open>\<open>os.path.join\<close> with one relative component, POSIX and Windows.\<close>

definition path_join :: "bool \<Rightarrow> string \<Rightarrow> string \<Rightarrow> string" where
  "path_join win a b =
     (if win then
        (if a = [] \<or> last a \<in> {CHR 0x5C, CHR ''/'', CHR '':''} then a @ b else a @ [CHR 0x5C] @ b)
      else (if a = [] \<or> last a = CHR ''/'' then a @ b else a @ ''/'' @ b))"

text \<open>
  \<open>save_history\<close>, the definition in force (the last one of the module). The path is
  read from the environment outside the \<open>try\<close>; the file receives the last 500
  commands, one per line.
\<close>

definition save_history :: "os_env \<Rightarrow> string list \<Rightarrow> (exn + unit) \<times> event list" where
  "save_history env command_history =
     (case (if windows env
            then map_option (\<lambda>d. path_join True (path_join True d ''PyTerminal'') ''cmd_history'')
                   (environ env ''APPDATA'')
            else map_option (\<lambda>d. path_join False d ''.pyterminal_cmd_history'')
                   (environ env ''HOME'')) of
        None \<Rightarrow> (Inl (KeyError (if windows env then ''APPDATA'' else ''HOME'')), [])
      | Some hist_path \<Rightarrow>
          (case history_write_error env of
             Some detail \<Rightarrow> (Inr (), [Stdout (SaveHistoryWarning detail)])
           | None \<Rightarrow>
               (Inr (), [WriteFile hist_path
                           (map (\<lambda>cmd. cmd @ [CHR 0x0A]) (py_last_n 500 command_history))])))"


section \<open>Dispatcher\<close>

text \<open>The handlers \<open>register_all_commands\<close> puts into \<open>COMMAND_REGISTRY\<close>.\<close>

datatype handler =
    CmdCd | CmdDir | CmdMkdir | CmdRm | CmdCp | CmdExit | CmdQuit
  | CmdHelp | CmdCls | CmdClear | CmdPwd | CmdKali

definition COMMAND_REGISTRY :: "(string \<times> handler) list" where
  "COMMAND_REGISTRY =
     [(''cd'', CmdCd), (''dir'', CmdDir), (''mkdir'', CmdMkdir), (''rm'', CmdRm),
      (''cp'', CmdCp), (''exit'', CmdExit), (''quit'', CmdQuit), (''help'', CmdHelp),
      (''cls'', CmdCls), (''clear'', CmdClear), (''pwd'', CmdPwd),
      (''kali_tools'', CmdKali), (''nmap'', CmdKali), (''metasploit'', CmdKali),
      (''burpsuite'', CmdKali), (''wireshark'', CmdKali), (''john'', CmdKali),
      (''aircrack-ng'', CmdKali), (''sqlmap'', CmdKali), (''hydra'', CmdKali),
      (''nikto'', CmdKali), (''gobuster'', CmdKali)]"

text \<open>
  A registered handler called with the line, as \<open>COMMAND_REGISTRY[cmd_key](command)\<close>
  does. \<open>cmd_rm\<close> passes \<open>auto_confirm=False\<close>. \<open>handle_cd\<close>, \<open>handle_dir\<close>,
  \<open>handle_mkdir\<close> and \<open>handle_cp\<close> catch their failures and return \<open>True\<close>; what they
  do to the file system and print is taken from the environment.
\<close>

definition call_handler ::
  "os_env \<Rightarrow> handler \<Rightarrow> string \<Rightarrow> string \<Rightarrow> string list \<Rightarrow> (exn + bool) \<times> string list \<times> event list" where
  "call_handler env h cmd_key command stdin =
     (case h of
        CmdExit \<Rightarrow> (Inr False, stdin, [])
      | CmdQuit \<Rightarrow> (Inr False, stdin, [])
      | CmdHelp \<Rightarrow>
          (case display_help env stdin of
             (Inl e, rest, es) \<Rightarrow> (Inl e, rest, es)
           | (Inr _, rest, es) \<Rightarrow> (Inr True, rest, es))
      | CmdCls \<Rightarrow> (Inr True, stdin, [ClearScreen])
      | CmdClear \<Rightarrow> (Inr True, stdin, [ClearScreen])
      | CmdPwd \<Rightarrow>
          (case getcwd env of
             None \<Rightarrow> (Inl CwdError, stdin, [])
           | Some d \<Rightarrow> (Inr True, stdin, [Stdout (Raw d)]))
      | CmdKali \<Rightarrow> (case handle_kali_tool command of (r, es) \<Rightarrow> (r, stdin, es))
      | CmdRm \<Rightarrow> handle_rm env command False stdin
      | _ \<Rightarrow> (Inr True, stdin, fs_builtin env cmd_key command))"

text \<open>
  The history step at the head of \<open>process_single_command\<close>: append, then pop when the
  last two entries are equal.
\<close>

definition record_history :: "string \<Rightarrow> string list \<Rightarrow> string list" where
  "record_history command command_history =
     (if py_strip command \<noteq> [] then
        (let h = command_history @ [command] in
         if length h > 1 \<and> h ! (length h - 1) = h ! (length h - 2) then butlast h else h)
      else command_history)"

text \<open>
  \<open>process_single_command\<close> after its history step: the command word, \<open>exit\<close> and
  \<open>quit\<close>, the empty line, the registry, and the external command. For \<open>rm\<close> the
  registered \<open>cmd_rm\<close>, a function of one argument, is called with two, which raises
  \<open>TypeError\<close>.
\<close>

definition route ::
  "os_env \<Rightarrow> config \<Rightarrow> string \<Rightarrow> bool \<Rightarrow> string list \<Rightarrow> string list \<Rightarrow>
     (exn + bool) \<times> string list \<times> event list" where
  "route env cfg command auto_confirm command_history stdin =
     (let cmd_parts = py_split (py_strip (py_lower command));
          cmd_key = (case cmd_parts of [] \<Rightarrow> [] | k # _ \<Rightarrow> k) in
      if cmd_key \<in> {''exit'', ''quit''} then
        (if get_bool cfg ''save_history'' True then
           (case save_history env command_history of
              (Inl e, es) \<Rightarrow> (Inl e, stdin, es)
            | (Inr _, es) \<Rightarrow> (Inr False, stdin, es))
         else (Inr False, stdin, []))
      else if cmd_key = [] then (Inr True, stdin, [])
      else
        (case map_of COMMAND_REGISTRY cmd_key of
           Some h \<Rightarrow>
             (if cmd_key = ''rm'' then (Inl TypeError, stdin, [])
              else call_handler env h cmd_key command stdin)
         | None \<Rightarrow>
             (case execute_command env cfg command stdin of
                (Inl e, rest, es) \<Rightarrow> (Inl e, rest, es)
              | (Inr _, rest, es) \<Rightarrow> (Inr True, rest, es))))"

text \<open>
  \<open>process_single_command(command, auto_confirm)\<close>. The result holds the returned flag
  or the exception that leaves the function, the history, what is left of standard
  input, and the events in order.
\<close>

definition process_single_command ::
  "os_env \<Rightarrow> config \<Rightarrow> string \<Rightarrow> bool \<Rightarrow> string list \<Rightarrow> string list \<Rightarrow>
     (exn + bool) \<times> string list \<times> string list \<times> event list" where
  "process_single_command env cfg command auto_confirm command_history stdin =
     (let history' = record_history command command_history in
      (case route env cfg command auto_confirm history' stdin of
         (r, rest, es) \<Rightarrow> (r, history', rest, es)))"

text \<open>
  A sequence of calls, each with the environment, configuration and standard input of
  its moment; the history is the one thing carried from call to call.
\<close>

fun dispatch_all ::
  "(os_env \<times> config \<times> string \<times> bool \<times> string list) list \<Rightarrow> string list \<Rightarrow> string list" where
  "dispatch_all [] h = h"
| "dispatch_all ((env, cfg, command, auto_confirm, stdin) # calls) h =
     dispatch_all calls (fst (snd (process_single_command env cfg command auto_confirm h stdin)))"

section \<open>Readable sizes\<close>

text \<open>
  \<open>get_readable_size\<close> works on a float once it has divided. A division by 1024 is
  exact in binary floating point, and so is the conversion of an integer below
  \<open>2 ^ 53\<close>; on such sizes the float is the rational number computed here, and the
  format \<open>:.2f\<close> rounds that number to two decimals, ties to the even digit.
\<close>

fun digits10 :: "nat \<Rightarrow> string" where
  "digits10 n =
     (if n < 10 then [char_of (48 + n)] else digits10 (n div 10) @ [char_of (48 + n mod 10)])"

declare digits10.simps [simp del]

definition round_half_even :: "rat \<Rightarrow> int" where
  "round_half_even y =
     (let f = \<lfloor>y\<rfloor>; d = y - of_int f in
      if d < 1 / 2 then f else if d > 1 / 2 then f + 1 else if even f then f else f + 1)"

text \<open>\<open>f"{x:.2f}"\<close>\<close>

definition fmt2 :: "rat \<Rightarrow> string" where
  "fmt2 x =
     (let q = nat (round_half_even (\<bar>x\<bar> * 100)) in
      (if x < 0 then ''-'' else []) @ digits10 (q div 100) @ ''.'' @
      [char_of (48 + q mod 100 div 10), char_of (48 + q mod 10)])"

definition size_units :: "string list" where
  "size_units = [''B'', ''KB'', ''MB'', ''GB'', ''TB'']"

text \<open>The \<open>for\<close> loop over the units, and the \<open>return\<close> after it.\<close>

fun readable_loop :: "rat \<Rightarrow> string list \<Rightarrow> string" where
  "readable_loop x [] = fmt2 x @ '' PB''"
| "readable_loop x (u # us) =
     (if x < 1024 then fmt2 x @ '' '' @ u else readable_loop (x / 1024) us)"

definition get_readable_size :: "int \<Rightarrow> string" where
  "get_readable_size size_bytes = readable_loop (of_int size_bytes) size_units"

subsection \<open>Reading a rendered size back\<close>

text \<open>
  What a rendered size says, read from its text alone: the digits before the point as
  a decimal numeral without leading zeros, the point, two digits, a space and the
  unit. \<open>read_size\<close> gives the number in hundredths together with the unit, and
  \<open>None\<close> for a text of any other form.
\<close>

definition is_digit :: "char \<Rightarrow> bool" where
  "is_digit c = (48 \<le> (of_char c :: nat) \<and> (of_char c :: nat) \<le> 57)"

definition digit_value :: "char \<Rightarrow> nat" where
  "digit_value c = of_char c - 48"

definition decimal_value :: "string \<Rightarrow> nat" where
  "decimal_value s = foldl (\<lambda>a c. 10 * a + digit_value c) 0 s"

definition canonical :: "string \<Rightarrow> bool" where
  "canonical s =
     (s \<noteq> [] \<and> list_all is_digit s \<and> (49 \<le> (of_char (hd s) :: nat) \<or> s = ''0''))"

definition hundredths :: "string \<Rightarrow> nat option" where
  "hundredths s =
     (let ip = takeWhile (\<lambda>c. c \<noteq> CHR ''.'') s;
          fp = dropWhile (\<lambda>c. c \<noteq> CHR ''.'') s in
      case fp of
        [p, d1, d2] \<Rightarrow>
          if canonical ip \<and> is_digit d1 \<and> is_digit d2
          then Some (100 * decimal_value ip + 10 * digit_value d1 + digit_value d2)
          else None
      | _ \<Rightarrow> None)"

definition read_size :: "string \<Rightarrow> (nat \<times> string) option" where
  "read_size s =
     (let num = takeWhile (\<lambda>c. c \<noteq> CHR '' '') s;
          rest = dropWhile (\<lambda>c. c \<noteq> CHR '' '') s in
      case rest of
        [] \<Rightarrow> None
      | sp # unit \<Rightarrow> map_option (\<lambda>q. (q, unit)) (hundredths num))"


section \<open>Reading a trace\<close>



fun is_spawn :: "event \<Rightarrow> bool" where
  "is_spawn (Spawn iv t) = True"
| "is_spawn e = False"



section \<open>An environment to run examples in\<close>

text \<open>
  A POSIX system with an empty current directory, no runnable program, \<open>HOME\<close> set and
  no command-line arguments; \<open>shlex.split\<close> of a line without quotes or backslashes
  is its split at whitespace.
\<close>

definition idle_env :: os_env where
  "idle_env =
     \<lparr>windows = False,
      shlex_split = (\<lambda>s. Some (py_split s)),
      child = (\<lambda>_. Fails FileNotFoundError),
      isdir = (\<lambda>_. False),
      isfile = (\<lambda>_. False),
      path_exists = (\<lambda>_. False),
      rmtree_result = (\<lambda>_. DelOk),
      remove_result = (\<lambda>_. DelOk),
      environ = [''HOME'' \<mapsto> ''/home/u''],
      getcwd = Some ''/home/u'',
      history_write_error = None,
      fs_builtin = (\<lambda>_ _. []),
      ARGS = None\<rparr>"


section \<open>Facts about the string operations\<close>

lemma is_space_lower_char: "is_space (lower_char c) = is_space c"
  by (auto simp: is_space_def lower_char_def Let_def)

lemma py_strip_all_space:
  assumes "\<forall>c \<in> set s. is_space c"
  shows "py_strip s = []"
  using assms by (auto simp: py_strip_def dest: set_dropWhileD)

lemma py_lower_all_space:
  "\<forall>c \<in> set s. is_space c \<Longrightarrow> \<forall>c \<in> set (py_lower s). is_space c"
  by (simp add: py_lower_def is_space_lower_char)

section \<open>The history step\<close>

lemma record_history_alt:
  "record_history c h =
     (if py_strip c = [] then h else if h \<noteq> [] \<and> last h = c then h else h @ [c])"
  by (cases h rule: rev_cases) (auto simp: record_history_def Let_def nth_append butlast_append)

lemma psc_history:
  "fst (snd (process_single_command env cfg c ac h stdin)) = record_history c h"
  by (simp add: process_single_command_def Let_def split: prod.splits)

lemma record_history_distinct_adj:
  "distinct_adj h \<Longrightarrow> distinct_adj (record_history c h)"
  by (auto simp: record_history_alt distinct_adj_append_iff)

lemma dispatch_all_distinct_adj:
  "distinct_adj h \<Longrightarrow> distinct_adj (dispatch_all calls h)"
  by (induction calls h rule: dispatch_all.induct)
     (simp_all add: psc_history record_history_distinct_adj)

lemma record_history_last:
  "py_strip c \<noteq> [] \<Longrightarrow> \<exists>pre. record_history c h = pre @ [c]"
  by (cases h rule: rev_cases) (auto simp: record_history_alt)

text \<open>
  C6. A history that starts empty, or without two equal neighbours, has no two equal
  neighbours after any sequence of calls of \<open>process_single_command\<close>. A non-empty line
  equal to the last entry leaves the history as it was. Of a line \<open>a\<close>, another line
  \<open>b\<close> and \<open>a\<close> again, all three are in the history, in this order at its end.
\<close>

theorem history_no_adjacent_repeats:
  "distinct_adj (dispatch_all calls []) \<and>
   (distinct_adj h \<longrightarrow> distinct_adj (dispatch_all calls h)) \<and>
   (py_strip c \<noteq> [] \<and> h \<noteq> [] \<and> last h = c \<longrightarrow>
      fst (snd (process_single_command env cfg c ac h stdin)) = h) \<and>
   (py_strip a \<noteq> [] \<and> py_strip b \<noteq> [] \<and> a \<noteq> b \<longrightarrow>
      (\<exists>pre. dispatch_all [(e1, c1, a, f1, s1), (e2, c2, b, f2, s2), (e3, c3, a, f3, s3)] h
               = pre @ [a, b, a]))"
proof (intro conjI impI)
  show "distinct_adj (dispatch_all calls [])"
    by (rule dispatch_all_distinct_adj) simp
  show "distinct_adj (dispatch_all calls h)" if "distinct_adj h"
    using that by (rule dispatch_all_distinct_adj)
  show "fst (snd (process_single_command env cfg c ac h stdin)) = h"
    if "py_strip c \<noteq> [] \<and> h \<noteq> [] \<and> last h = c"
    using that by (simp add: psc_history record_history_alt)
  show "\<exists>pre. dispatch_all [(e1, c1, a, f1, s1), (e2, c2, b, f2, s2), (e3, c3, a, f3, s3)] h
               = pre @ [a, b, a]"
    if ab: "py_strip a \<noteq> [] \<and> py_strip b \<noteq> [] \<and> a \<noteq> b"
  proof -
    from ab obtain pre where pre: "record_history a h = pre @ [a]"
      using record_history_last by blast
    have "record_history b (pre @ [a]) = pre @ [a, b]"
      using ab by (auto simp: record_history_alt)
    moreover have "record_history a (pre @ [a, b]) = pre @ [a, b, a]"
      using ab by (auto simp: record_history_alt)
    ultimately show ?thesis
      using pre by (simp add: psc_history)
  qed
qed

text \<open>
  C6, at an input: from the history \<open>ls\<close>, a second \<open>ls\<close> changes nothing, and \<open>ls\<close>,
  \<open>pwd\<close>, \<open>ls\<close> leaves a history that ends with these three.
\<close>

theorem history_no_adjacent_repeats_witness:
  "distinct_adj [''ls''] \<and>
   distinct_adj (dispatch_all [(idle_env, DEFAULT_CONFIG, ''ls'', False, [])] [''ls'']) \<and>
   py_strip ''ls'' \<noteq> [] \<and> py_strip ''pwd'' \<noteq> [] \<and> ''ls'' \<noteq> ''pwd'' \<and>
   fst (snd (process_single_command idle_env DEFAULT_CONFIG ''ls'' False [''ls''] [])) = [''ls''] \<and>
   (\<exists>pre. dispatch_all [(idle_env, DEFAULT_CONFIG, ''ls'', False, []),
                          (idle_env, DEFAULT_CONFIG, ''pwd'', False, []),
                          (idle_env, DEFAULT_CONFIG, ''ls'', False, [])] [''ls'']
             = pre @ [''ls'', ''pwd'', ''ls''])"
proof -
  have s1: "py_strip ''ls'' \<noteq> []" by code_simp
  have s2: "py_strip ''pwd'' \<noteq> []" by code_simp
  show ?thesis
    using s1 s2
      history_no_adjacent_repeats
        [where h = "[''ls'']" and c = "''ls''" and a = "''ls''" and b = "''pwd''"
           and calls = "[(idle_env, DEFAULT_CONFIG, ''ls'', False, [])]"
           and env = idle_env and cfg = DEFAULT_CONFIG and ac = False and stdin = "[]"
           and ?e1.0 = idle_env and ?e2.0 = idle_env and ?e3.0 = idle_env
           and ?c1.0 = DEFAULT_CONFIG and ?c2.0 = DEFAULT_CONFIG and ?c3.0 = DEFAULT_CONFIG
           and ?f1.0 = False and ?f2.0 = False and ?f3.0 = False
           and ?s1.0 = "[]" and ?s2.0 = "[]" and ?s3.0 = "[]"]
    by auto
qed

text \<open>
  C7. A line that is empty or made of whitespace only makes \<open>process_single_command\<close>
  return \<open>True\<close>, with the history, standard input and the output untouched.
\<close>

theorem blank_line_is_noop:
  assumes "\<forall>c \<in> set command. is_space c"
  shows "process_single_command env cfg command auto_confirm command_history stdin
           = (Inr True, command_history, stdin, [])"
proof -
  have a: "py_strip command = []"
    using assms by (rule py_strip_all_space)
  have b: "py_strip (py_lower command) = []"
    using assms by (intro py_strip_all_space py_lower_all_space)
  show ?thesis
    by (simp add: process_single_command_def route_def record_history_def a b py_split_def)
qed

text \<open>C7, at the line of two spaces and the history \<open>ls\<close>.\<close>

theorem blank_line_is_noop_witness:
  "is_space CHR '' '' \<and>
   process_single_command idle_env DEFAULT_CONFIG ''  '' False [''ls''] []
     = (Inr True, [''ls''], [], [])"
proof -
  have sp: "is_space CHR '' ''"
    by (simp add: is_space_def)
  then have "\<forall>c \<in> set ''  ''. is_space c"
    by simp
  then show ?thesis
    using sp blank_line_is_noop [of "''  ''" idle_env DEFAULT_CONFIG False "[''ls'']" "[]"]
    by simp
qed


section \<open>The process executor at concrete commands\<close>

text \<open>
  C1. One call of \<open>execute_command\<close> for the external command \<open>printf hi\<close>, not
  high-risk, whose child exits at once with the output \<open>hi\<close>: the body runs its \<open>try\<close>
  block twice, so two children are spawned and the output is printed twice.
\<close>

theorem execute_command_runs_twice:
  "execute_command (idle_env\<lparr>child := (\<lambda>_. Exits 0 ''hi'' [])\<rparr>) DEFAULT_CONFIG ''printf hi'' []
     = (Inr (), [],
        [Spawn (Argv [''printf'', ''hi'']) 15, Stdout (Raw ''hi''),
         Spawn (Argv [''printf'', ''hi'']) 15, Stdout (Raw ''hi'')])
   \<and> length (filter is_spawn (snd (snd
         (execute_command (idle_env\<lparr>child := (\<lambda>_. Exits 0 ''hi'' [])\<rparr>)
            DEFAULT_CONFIG ''printf hi'' [])))) = 2"
  by code_simp

text \<open>
  C2. With \<open>cmd_timeout\<close> set to 1 and a command whose child needs 5 seconds and then
  prints \<open>done\<close>: the first run is killed and reported with the bound 1; the second
  run reads the key \<open>command_timeout\<close>, which the configuration does not have, waits
  15 seconds, and prints the output of the finished child. A child that never exits
  is reported a second time with the bound 15, whatever \<open>cmd_timeout\<close> is.
\<close>

theorem execute_command_second_timeout:
  "execute_command (idle_env\<lparr>child := (\<lambda>_. Exits 5 ''done'' [])\<rparr>)
     (DEFAULT_CONFIG(''cmd_timeout'' \<mapsto> CInt 1)) ''sh slow.sh'' []
     = (Inr (), [],
        [Spawn (Argv [''sh'', ''slow.sh'']) 1, Killed (Argv [''sh'', ''slow.sh'']),
         Stderr (TimeoutMsg ''sh slow.sh'' 1),
         Spawn (Argv [''sh'', ''slow.sh'']) 15, Stdout (Raw ''done'')])
   \<and> execute_command (idle_env\<lparr>child := (\<lambda>_. Hangs)\<rparr>)
     (DEFAULT_CONFIG(''cmd_timeout'' \<mapsto> CInt 60)) ''sh slow.sh'' []
     = (Inr (), [],
        [Spawn (Argv [''sh'', ''slow.sh'']) 60, Killed (Argv [''sh'', ''slow.sh'']),
         Stderr (TimeoutMsg ''sh slow.sh'' 60),
         Spawn (Argv [''sh'', ''slow.sh'']) 15, Killed (Argv [''sh'', ''slow.sh'']),
         Stderr (TimeoutMsg ''sh slow.sh'' 15)])"
  by code_simp

section \<open>The built-in handlers at concrete lines\<close>

text \<open>
  C5. \<open>rm my-report.txt\<close>, where \<open>my-report.txt\<close> is an existing plain file and the line
  has no \<open>-r\<close> word: the characters \<open>-r\<close> inside the name select the directory mode,
  they are cut out of the path, and the path \<open>myeport.txt\<close> is reported as a missing
  directory; nothing is deleted.
\<close>

theorem handle_rm_dash_r_in_name:
  "''-r'' \<notin> set (py_split ''rm my-report.txt'') \<and>
   handle_rm (idle_env\<lparr>isfile := (\<lambda>p. p = ''my-report.txt''),
                       path_exists := (\<lambda>p. p = ''my-report.txt'')\<rparr>)
       ''rm my-report.txt'' False [''y'']
     = (Inr True, [''y''], [Stderr (DirMissing ''myeport.txt'')])"
  by code_simp

text \<open>
  C10. The line \<open>NMAP\<close>: its lower-cased first word is registered, the handler compares
  the word as typed with its lower-case keys, prints nothing and returns \<open>False\<close>, which
  \<open>process_single_command\<close> returns as its own result. The line \<open>nmap\<close> prints the
  description and returns \<open>True\<close>.
\<close>

theorem kali_upper_case_stops:
  "map_of COMMAND_REGISTRY (hd (py_split (py_strip (py_lower ''NMAP'')))) = Some CmdKali \<and>
   process_single_command idle_env DEFAULT_CONFIG ''NMAP'' False [] []
     = (Inr False, [''NMAP''], [], []) \<and>
   process_single_command idle_env DEFAULT_CONFIG ''nmap'' False [] []
     = (Inr True, [''nmap''], [], [Stdout (KaliItem ''nmap''), Stdout KaliNote])"
  by code_simp

section \<open>The persisted history\<close>







section \<open>The risk classifier\<close>

lemma starts_with_iff: "starts_with s p \<longleftrightarrow> (\<exists>ys. s = p @ ys)"
  by (induction s p rule: starts_with.induct) auto

lemma py_in_iff: "py_in p s \<longleftrightarrow> (\<exists>xs ys. s = xs @ p @ ys)"
proof (induction s)
  case Nil
  show ?case by auto
next
  case (Cons c cs)
  show ?case
  proof
    assume "py_in p (c # cs)"
    then consider "starts_with (c # cs) p" | "py_in p cs" by auto
    then show "\<exists>xs ys. c # cs = xs @ p @ ys"
    proof cases
      case 1
      then obtain ys where "c # cs = p @ ys" using starts_with_iff by blast
      then have "c # cs = [] @ p @ ys" by simp
      then show ?thesis by blast
    next
      case 2
      then obtain xs ys where "cs = xs @ p @ ys" using Cons.IH by blast
      then have "c # cs = (c # xs) @ p @ ys" by simp
      then show ?thesis by blast
    qed
  next
    assume "\<exists>xs ys. c # cs = xs @ p @ ys"
    then obtain xs ys where e: "c # cs = xs @ p @ ys" by blast
    show "py_in p (c # cs)"
    proof (cases xs)
      case Nil
      with e have "starts_with (c # cs) p" using starts_with_iff by auto
      then show ?thesis by simp
    next
      case (Cons x xs')
      with e have "cs = xs' @ p @ ys" by simp
      then have "py_in p cs" using Cons.IH by blast
      then show ?thesis by simp
    qed
  qed
qed

lemma py_strip_decomp: "\<exists>a b. s = a @ py_strip s @ b"
proof -
  define d where "d = dropWhile is_space s"
  have "rev (takeWhile is_space (rev d) @ dropWhile is_space (rev d)) = rev (rev d)"
    by (simp only: takeWhile_dropWhile_id)
  then have "rev (dropWhile is_space (rev d)) @ rev (takeWhile is_space (rev d)) = d"
    by (simp only: rev_append rev_rev_ident)
  then have "d = py_strip s @ rev (takeWhile is_space (rev d))"
    unfolding py_strip_def d_def by (rule sym)
  moreover have "s = takeWhile is_space s @ d" by (simp add: d_def)
  ultimately have "s = takeWhile is_space s @ py_strip s @ rev (takeWhile is_space (rev d))"
    by simp
  then show ?thesis by blast
qed

lemma py_in_strip_imp: "py_in p (py_strip s) \<Longrightarrow> py_in p s"
proof -
  assume "py_in p (py_strip s)"
  then obtain xs ys where m: "py_strip s = xs @ p @ ys" using py_in_iff by blast
  obtain a b where "s = a @ py_strip s @ b" using py_strip_decomp by blast
  with m have "s = (a @ xs) @ p @ (ys @ b)" by simp
  then show ?thesis using py_in_iff by blast
qed

lemma dropWhile_keeps:
  "p \<noteq> [] \<Longrightarrow> \<not> P (hd p) \<Longrightarrow> dropWhile P (xs @ p @ ys) = dropWhile P xs @ p @ ys"
  by (induction xs) (auto simp: neq_Nil_conv)

text \<open>A fragment that neither begins nor ends with whitespace survives \<open>strip\<close>.\<close>

lemma py_in_strip_edge:
  assumes "p \<noteq> []" and "\<not> is_space (hd p)" and "\<not> is_space (last p)" and "py_in p s"
  shows "py_in p (py_strip s)"
proof -
  obtain xs ys where s: "s = xs @ p @ ys" using assms(4) py_in_iff by blast
  have 1: "dropWhile is_space s = dropWhile is_space xs @ p @ ys"
    unfolding s using assms(1,2) by (rule dropWhile_keeps)
  have rp: "rev p \<noteq> []" "\<not> is_space (hd (rev p))"
    using assms(1,3) by (simp_all add: hd_rev)
  have 2: "dropWhile is_space (rev ys @ rev p @ rev (dropWhile is_space xs))
             = dropWhile is_space (rev ys) @ rev p @ rev (dropWhile is_space xs)"
    using rp by (rule dropWhile_keeps)
  have "py_strip s = dropWhile is_space xs @ p @ rev (dropWhile is_space (rev ys))"
    by (simp add: py_strip_def 1 2)
  then show ?thesis using py_in_iff by blast
qed

lemma is_high_risk_builtin:
  "p \<in> set high_risk_patterns \<Longrightarrow> py_in p (py_strip (py_lower cmd)) \<Longrightarrow>
     is_high_risk_command cfg cmd"
  by (auto simp: is_high_risk_command_def Let_def list_ex_iff)

lemma is_high_risk_custom:
  "r \<in> set (get_list cfg ''high_risk_commands'' []) \<Longrightarrow>
     py_in (py_lower r) (py_strip (py_lower cmd)) \<Longrightarrow> is_high_risk_command cfg cmd"
  by (auto simp: is_high_risk_command_def Let_def list_ex_iff)

lemma is_high_risk_none:
  assumes "get_list cfg ''high_risk_commands'' [] = []"
    and "\<not> list_ex (\<lambda>p. py_in p (py_lower cmd)) high_risk_patterns"
  shows "\<not> is_high_risk_command cfg cmd"
proof
  assume "is_high_risk_command cfg cmd"
  then obtain p where "p \<in> set high_risk_patterns" "py_in p (py_strip (py_lower cmd))"
    using assms(1) by (auto simp: is_high_risk_command_def Let_def list_ex_iff split: if_splits)
  then have "p \<in> set high_risk_patterns" "py_in p (py_lower cmd)"
    using py_in_strip_imp by blast+
  with assms(2) show False by (auto simp: list_ex_iff)
qed

lemma solid_fragments:
  "p \<in> {''rm -rf'', ''dd if='', ''del *''} \<Longrightarrow>
     p \<in> set high_risk_patterns \<and> p \<noteq> [] \<and> \<not> is_space (hd p) \<and> \<not> is_space (last p)"
proof -
  have "list_all (\<lambda>p. p \<in> set high_risk_patterns \<and> p \<noteq> [] \<and> \<not> is_space (hd p) \<and>
          \<not> is_space (last p)) [''rm -rf'', ''dd if='', ''del *'']"
    by code_simp
  moreover assume "p \<in> {''rm -rf'', ''dd if='', ''del *''}"
  ultimately show ?thesis
    by auto
qed

lemma four_fragments:
  "p \<in> {''rm -rf'', ''format '', ''dd if='', ''del *''} \<Longrightarrow> p \<in> set high_risk_patterns"
  by (auto simp: high_risk_patterns_def)

text \<open>
  C3, as stated, fails: the classifier strips the lower-cased line before it searches,
  so the fragment \<open>format\<close> followed by a space is not found in a line that ends with it.
\<close>

theorem format_at_line_end_not_flagged:
  "py_in ''format '' (py_lower ''format '') \<and>
   \<not> is_high_risk_command DEFAULT_CONFIG ''format ''"
  by code_simp

text \<open>
  C3, amended. \<open>is_high_risk_command\<close> is true for every line whose lower-cased, trimmed
  text contains one of \<open>rm -rf\<close>, \<open>format\<close> followed by a space, \<open>dd if=\<close>, \<open>del *\<close>, or
  the lower-cased text of an entry of the custom list; for the three fragments that do
  not end in a space, containment in the lower-cased line is enough. It is false when
  the custom list is empty and the lower-cased line contains none of the built-in
  fragments, as for \<open>ls -la\<close>.
\<close>

theorem is_high_risk_command_trimmed:
  "(p \<in> {''rm -rf'', ''format '', ''dd if='', ''del *''} \<and>
      py_in p (py_strip (py_lower line)) \<longrightarrow> is_high_risk_command cfg line) \<and>
   (p \<in> {''rm -rf'', ''dd if='', ''del *''} \<and> py_in p (py_lower line)
      \<longrightarrow> is_high_risk_command cfg line) \<and>
   (r \<in> set (get_list cfg ''high_risk_commands'' []) \<and>
      py_in (py_lower r) (py_strip (py_lower line)) \<longrightarrow> is_high_risk_command cfg line) \<and>
   (get_list cfg ''high_risk_commands'' [] = [] \<and>
      \<not> list_ex (\<lambda>p. py_in p (py_lower line)) high_risk_patterns
      \<longrightarrow> \<not> is_high_risk_command cfg line) \<and>
   \<not> is_high_risk_command (DEFAULT_CONFIG(''high_risk_commands'' \<mapsto> CList [])) ''ls -la''"
proof (intro conjI impI)
  show "is_high_risk_command cfg line"
    if "p \<in> {''rm -rf'', ''format '', ''dd if='', ''del *''} \<and>
        py_in p (py_strip (py_lower line))"
    using that four_fragments is_high_risk_builtin by blast
  show "is_high_risk_command cfg line"
    if h: "p \<in> {''rm -rf'', ''dd if='', ''del *''} \<and> py_in p (py_lower line)"
  proof -
    from h have s: "p \<in> set high_risk_patterns" "p \<noteq> []" "\<not> is_space (hd p)"
      "\<not> is_space (last p)"
      using solid_fragments by blast+
    from s(2,3,4) h have "py_in p (py_strip (py_lower line))"
      using py_in_strip_edge by blast
    with s(1) show ?thesis by (rule is_high_risk_builtin)
  qed
  show "is_high_risk_command cfg line"
    if "r \<in> set (get_list cfg ''high_risk_commands'' []) \<and>
        py_in (py_lower r) (py_strip (py_lower line))"
    using that is_high_risk_custom by blast
  show "\<not> is_high_risk_command cfg line"
    if "get_list cfg ''high_risk_commands'' [] = [] \<and>
        \<not> list_ex (\<lambda>p. py_in p (py_lower line)) high_risk_patterns"
    using that is_high_risk_none by blast
  show "\<not> is_high_risk_command (DEFAULT_CONFIG(''high_risk_commands'' \<mapsto> CList [])) ''ls -la''"
    by code_simp
qed

text \<open>
  C3, amended, at \<open>sudo RM -RF /tmp/x\<close>, at \<open>FORMAT d:\<close> between spaces, at the custom
  entry \<open>Shutdown\<close> with the line \<open>shutdown now\<close>, and at \<open>ls -la\<close> with an empty custom
  list.
\<close>

theorem is_high_risk_command_trimmed_witness:
  "py_in ''rm -rf'' (py_lower ''sudo RM -RF /tmp/x '') \<and>
   is_high_risk_command DEFAULT_CONFIG ''sudo RM -RF /tmp/x '' \<and>
   py_in ''format '' (py_strip (py_lower '' FORMAT d: '')) \<and>
   is_high_risk_command DEFAULT_CONFIG '' FORMAT d: '' \<and>
   py_in (py_lower ''Shutdown'') (py_strip (py_lower ''shutdown now'')) \<and>
   is_high_risk_command (DEFAULT_CONFIG(''high_risk_commands'' \<mapsto> CList [''Shutdown'']))
     ''shutdown now'' \<and>
   list_ex (\<lambda>p. py_in p (py_lower ''ls -la'')) high_risk_patterns = False \<and>
   is_high_risk_command (DEFAULT_CONFIG(''high_risk_commands'' \<mapsto> CList [])) ''ls -la'' = False"
proof -
  have a: "py_in ''rm -rf'' (py_lower ''sudo RM -RF /tmp/x '')" by code_simp
  have b: "py_in ''format '' (py_strip (py_lower '' FORMAT d: ''))" by code_simp
  have c: "py_in (py_lower ''Shutdown'') (py_strip (py_lower ''shutdown now''))" by code_simp
  have d: "list_ex (\<lambda>p. py_in p (py_lower ''ls -la'')) high_risk_patterns = False" by code_simp
  have l1: "get_list (DEFAULT_CONFIG(''high_risk_commands'' \<mapsto> CList [''Shutdown'']))
              ''high_risk_commands'' [] = [''Shutdown'']"
    by (simp add: get_list_def)
  have l2: "get_list (DEFAULT_CONFIG(''high_risk_commands'' \<mapsto> CList []))
              ''high_risk_commands'' [] = []"
    by (simp add: get_list_def)
  show ?thesis
    using a b c d l1 l2
      is_high_risk_command_trimmed [of "''rm -rf''" "''sudo RM -RF /tmp/x ''" DEFAULT_CONFIG
        "''x''"]
      is_high_risk_command_trimmed [of "''format ''" "'' FORMAT d: ''" DEFAULT_CONFIG "''x''"]
      is_high_risk_command_trimmed [of "''x''" "''shutdown now''"
        "DEFAULT_CONFIG(''high_risk_commands'' \<mapsto> CList [''Shutdown''])" "''Shutdown''"]
      is_high_risk_command_trimmed [of "''x''" "''ls -la''"
        "DEFAULT_CONFIG(''high_risk_commands'' \<mapsto> CList [])" "''x''"]
    by simp
qed


section \<open>Readable sizes\<close>

subsection \<open>The loop over the units\<close>

lemma readable_loop_skip:
  "1024 ^ length pre \<le> x \<Longrightarrow>
     readable_loop x (pre @ us) = readable_loop (x / 1024 ^ length pre) us"
proof (induction pre arbitrary: x)
  case Nil
  then show ?case by simp
next
  case (Cons u pre)
  have one: "(1::rat) \<le> 1024 ^ length pre" by simp
  from Cons.prems have big: "1024 * 1024 ^ length pre \<le> x" by simp
  have "(1024::rat) * 1 \<le> 1024 * 1024 ^ length pre"
    using one by (intro mult_left_mono) simp_all
  with big have "1024 \<le> x" by linarith
  moreover from big have "1024 ^ length pre \<le> x / 1024"
    by (simp add: field_simps)
  ultimately show ?case
    using Cons.IH [of "x / 1024"] by (simp add: field_simps)
qed

lemma readable_loop_unit:
  assumes "k < length us" and "1024 ^ k \<le> x" and "x < 1024 ^ Suc k"
  shows "readable_loop x us = fmt2 (x / 1024 ^ k) @ '' '' @ us ! k"
proof -
  have split: "us = take k us @ us ! k # drop (Suc k) us"
    using assms(1) by (rule id_take_nth_drop)
  have len: "length (take k us) = k"
    using assms(1) by simp
  have small: "x / 1024 ^ k < 1024"
    using assms(3) by (simp add: field_simps)
  have "readable_loop x us = readable_loop x (take k us @ us ! k # drop (Suc k) us)"
    using split by simp
  also have "\<dots> = readable_loop (x / 1024 ^ k) (us ! k # drop (Suc k) us)"
    using readable_loop_skip [of "take k us" x] assms(2) len by simp
  also have "\<dots> = fmt2 (x / 1024 ^ k) @ '' '' @ us ! k"
    using small by simp
  finally show ?thesis .
qed

text \<open>The six units, as the loop and the \<open>return\<close> after it give them.\<close>

lemma get_readable_size_fmt2:
  assumes "k \<le> 5" and "k = 0 \<or> 1024 ^ k \<le> n" and "k = 5 \<or> n < 1024 ^ Suc k"
  shows "get_readable_size n
           = fmt2 (of_int n / 1024 ^ k) @ '' '' @ [''B'', ''KB'', ''MB'', ''GB'', ''TB'', ''PB''] ! k"
proof (cases "k = 5")
  case True
  then have "1024 ^ 5 \<le> n" using assms(2) by simp
  then have lo: "(1024::rat) ^ 5 \<le> of_int n"
    by (metis of_int_le_iff of_int_numeral of_int_power)
  have "length size_units = 5"
    by (simp add: size_units_def)
  then show ?thesis
    using readable_loop_skip [of size_units "of_int n" "[]"] lo True
    by (simp add: get_readable_size_def)
next
  case False
  with assms have k: "k < 5" and hi0: "n < 1024 ^ Suc k" by simp_all
  have hi: "(of_int n :: rat) < 1024 ^ Suc k"
    using hi0 by (metis of_int_less_iff of_int_numeral of_int_power)
  have u: "size_units ! k = [''B'', ''KB'', ''MB'', ''GB'', ''TB'', ''PB''] ! k"
    using k by (simp add: size_units_def nth_Cons split: nat.splits)
  show ?thesis
  proof (cases "k = 0")
    case True
    then show ?thesis
      using hi by (simp add: get_readable_size_def size_units_def)
  next
    case nz: False
    with assms(2) have "1024 ^ k \<le> n" by simp
    then have lo: "(1024::rat) ^ k \<le> of_int n"
      by (metis of_int_le_iff of_int_numeral of_int_power)
    have "k < length size_units"
      using k by (simp add: size_units_def)
    then have "readable_loop (of_int n) size_units
                 = fmt2 (of_int n / 1024 ^ k) @ '' '' @ size_units ! k"
      using lo hi by (rule readable_loop_unit)
    then show ?thesis
      by (simp add: get_readable_size_def u)
  qed
qed

subsection \<open>Rounding to the nearest hundredth\<close>

lemma round_half_even_nearest:
  "\<bar>of_int (round_half_even y) - y\<bar> \<le> 1 / 2"
proof -
  have "of_int \<lfloor>y\<rfloor> \<le> y" "y < of_int \<lfloor>y\<rfloor> + 1"
    by linarith+
  then show ?thesis
    by (auto simp: round_half_even_def Let_def)
qed

lemma round_half_even_tie:
  "\<bar>of_int (round_half_even y) - y\<bar> = 1 / 2 \<Longrightarrow> even (round_half_even y)"
proof -
  assume t: "\<bar>of_int (round_half_even y) - y\<bar> = 1 / 2"
  have f: "of_int \<lfloor>y\<rfloor> \<le> y" "y < of_int \<lfloor>y\<rfloor> + 1"
    by linarith+
  show ?thesis
  proof (cases "y - of_int \<lfloor>y\<rfloor> < 1 / 2")
    case True
    then have "round_half_even y = \<lfloor>y\<rfloor>" by (simp add: round_half_even_def Let_def)
    with t True f show ?thesis by simp
  next
    case nl: False
    show ?thesis
    proof (cases "y - of_int \<lfloor>y\<rfloor> > 1 / 2")
      case True
      then have "round_half_even y = \<lfloor>y\<rfloor> + 1"
        using nl by (simp add: round_half_even_def Let_def)
      with t True f show ?thesis by simp
    next
      case False
      with nl show ?thesis by (simp add: round_half_even_def Let_def)
    qed
  qed
qed

lemma round_half_even_nonneg: "0 \<le> y \<Longrightarrow> 0 \<le> round_half_even y"
proof -
  assume "0 \<le> y"
  then have "0 \<le> \<lfloor>y\<rfloor>" by simp
  then show ?thesis by (auto simp: round_half_even_def Let_def)
qed

subsection \<open>Digits\<close>

lemma digit_char:
  "d < 10 \<Longrightarrow> is_digit (char_of (48 + d)) \<and> digit_value (char_of (48 + d)) = d"
  by (simp add: is_digit_def digit_value_def)

lemma is_digit_not_point: "is_digit c \<Longrightarrow> c \<noteq> CHR ''.'' \<and> c \<noteq> CHR '' ''"
  by (auto simp: is_digit_def)

lemma is_digit_char_of: "is_digit c \<Longrightarrow> char_of (48 + digit_value c) = c"
  by (simp add: is_digit_def digit_value_def)

lemma is_digit_value: "is_digit c \<Longrightarrow> digit_value c < 10"
  by (auto simp: is_digit_def digit_value_def)

lemma decimal_value_snoc: "decimal_value (s @ [c]) = 10 * decimal_value s + digit_value c"
  by (simp add: decimal_value_def)

lemma digits10_step: "10 \<le> n \<Longrightarrow> digits10 n = digits10 (n div 10) @ [char_of (48 + n mod 10)]"
  by (subst digits10.simps) simp

lemma digits10_small: "n < 10 \<Longrightarrow> digits10 n = [char_of (48 + n)]"
  by (subst digits10.simps) simp

lemma digits10_nonempty: "digits10 n \<noteq> []"
  by (cases "n < 10") (simp_all add: digits10_small digits10_step)

lemma digits10_digits: "list_all is_digit (digits10 n)"
proof (induction n rule: digits10.induct)
  case (1 n)
  show ?case
  proof (cases "n < 10")
    case True
    then show ?thesis by (simp add: digits10_small digit_char)
  next
    case False
    then have "list_all is_digit (digits10 (n div 10))" by (rule 1)
    then show ?thesis
      using False by (simp add: digits10_step digit_char)
  qed
qed

lemma digits10_value: "decimal_value (digits10 n) = n"
proof (induction n rule: digits10.induct)
  case (1 n)
  show ?case
  proof (cases "n < 10")
    case True
    then show ?thesis by (simp add: digits10_small decimal_value_def digit_char)
  next
    case False
    then have "decimal_value (digits10 (n div 10)) = n div 10" by (rule 1)
    then show ?thesis
      using False by (simp add: digits10_step decimal_value_snoc digit_char)
  qed
qed

lemma digits10_head: "1 \<le> n \<Longrightarrow> 49 \<le> (of_char (hd (digits10 n)) :: nat)"
proof (induction n rule: digits10.induct)
  case (1 n)
  show ?case
  proof (cases "n < 10")
    case True
    then show ?thesis using "1.prems" by (simp add: digits10_small)
  next
    case False
    then have "1 \<le> n div 10" by simp
    with False have "49 \<le> (of_char (hd (digits10 (n div 10))) :: nat)" by (rule 1)
    then show ?thesis
      using False by (simp add: digits10_step digits10_nonempty)
  qed
qed

lemma digits10_zero: "digits10 0 = ''0''"
  by code_simp

lemma digits10_canonical: "canonical (digits10 n)"
proof (cases "n = 0")
  case True
  have "canonical ''0''" by (simp add: canonical_def is_digit_def)
  then show ?thesis by (simp only: True digits10_zero)
next
  case False
  then have "49 \<le> (of_char (hd (digits10 n)) :: nat)" by (simp add: digits10_head)
  then show ?thesis
    by (simp add: canonical_def digits10_nonempty digits10_digits)
qed

subsection \<open>Reading back what \<open>fmt2\<close> writes\<close>

lemma hundredths_written:
  assumes "canonical ip" and "is_digit d1" and "is_digit d2"
  shows "hundredths (ip @ ''.'' @ [d1, d2])
           = Some (100 * decimal_value ip + 10 * digit_value d1 + digit_value d2)"
proof -
  have np: "\<And>c. c \<in> set ip \<Longrightarrow> c \<noteq> CHR ''.''"
    using assms(1) by (auto simp: canonical_def list_all_iff dest: is_digit_not_point)
  have t: "takeWhile (\<lambda>c. c \<noteq> CHR ''.'') (ip @ ''.'' @ [d1, d2]) = ip"
    using np by (simp add: takeWhile_append2)
  have d: "dropWhile (\<lambda>c. c \<noteq> CHR ''.'') (ip @ ''.'' @ [d1, d2]) = ''.'' @ [d1, d2]"
    using np by (simp add: dropWhile_append2)
  show ?thesis
    unfolding hundredths_def t d using assms by simp
qed

lemma fmt2_text:
  "0 \<le> x \<Longrightarrow> q = nat (round_half_even (x * 100)) \<Longrightarrow>
     fmt2 x = digits10 (q div 100) @ ''.'' @
       [char_of (48 + q mod 100 div 10), char_of (48 + q mod 10)]"
  by (simp add: fmt2_def Let_def)

lemma hundredths_parts: "100 * (q div 100) + 10 * (q mod 100 div 10) + q mod 10 = (q::nat)"
proof -
  have "q mod 100 = 10 * (q mod 100 div 10) + q mod 100 mod 10" by simp
  moreover have "q mod 100 mod 10 = q mod 10" by (simp add: mod_mod_cancel)
  moreover have "q = 100 * (q div 100) + q mod 100" by simp
  ultimately show ?thesis by linarith
qed

lemma hundredths_fmt2:
  assumes "0 \<le> x"
  shows "hundredths (fmt2 x) = Some (nat (round_half_even (x * 100)))"
proof -
  define q where "q = nat (round_half_even (x * 100))"
  have f: "fmt2 x = digits10 (q div 100) @ ''.'' @
             [char_of (48 + q mod 100 div 10), char_of (48 + q mod 10)]"
    using assms q_def by (rule fmt2_text)
  have a: "q mod 100 div 10 < 10" and b: "q mod 10 < 10" by simp_all
  have "hundredths (fmt2 x) = Some (100 * (q div 100) + 10 * (q mod 100 div 10) + q mod 10)"
    unfolding f
    using hundredths_written [OF digits10_canonical, of "char_of (48 + q mod 100 div 10)"
        "char_of (48 + q mod 10)" "q div 100"] digit_char [OF a] digit_char [OF b]
    by (simp add: digits10_value)
  then show ?thesis by (simp only: hundredths_parts q_def)
qed

lemma fmt2_no_space:
  assumes "0 \<le> x" and "c \<in> set (fmt2 x)"
  shows "c \<noteq> CHR '' ''"
proof -
  define q where "q = nat (round_half_even (x * 100))"
  have f: "fmt2 x = digits10 (q div 100) @ ''.'' @
             [char_of (48 + q mod 100 div 10), char_of (48 + q mod 10)]"
    using assms(1) q_def by (rule fmt2_text)
  have a: "q mod 100 div 10 < 10" and b: "q mod 10 < 10" by simp_all
  from assms(2) consider "c \<in> set (digits10 (q div 100))" | "c = CHR ''.''"
    | "c = char_of (48 + q mod 100 div 10)" | "c = char_of (48 + q mod 10)"
    unfolding f by auto
  then show ?thesis
  proof cases
    case 1
    then have "is_digit c" using digits10_digits [of "q div 100"] by (simp add: list_all_iff)
    then show ?thesis by (simp add: is_digit_not_point)
  next
    case 2
    then show ?thesis by simp
  next
    case 3
    then show ?thesis using digit_char [OF a] by (simp add: is_digit_not_point)
  next
    case 4
    then show ?thesis using digit_char [OF b] by (simp add: is_digit_not_point)
  qed
qed

lemma read_size_written:
  assumes "0 \<le> x"
  shows "read_size (fmt2 x @ '' '' @ u) = Some (nat (round_half_even (x * 100)), u)"
proof -
  have ns: "\<And>c. c \<in> set (fmt2 x) \<Longrightarrow> c \<noteq> CHR '' ''"
    using assms by (rule fmt2_no_space)
  have t: "takeWhile (\<lambda>c. c \<noteq> CHR '' '') (fmt2 x @ '' '' @ u) = fmt2 x"
    using ns by (simp add: takeWhile_append2)
  have d: "dropWhile (\<lambda>c. c \<noteq> CHR '' '') (fmt2 x @ '' '' @ u) = '' '' @ u"
    using ns by (simp add: dropWhile_append2)
  show ?thesis
    unfolding read_size_def t d using hundredths_fmt2 [OF assms] by simp
qed

subsection \<open>A rendered size is determined by what it says\<close>

lemma decimal_value_ge: "a \<le> foldl (\<lambda>a c. 10 * a + digit_value c) a s"
proof (induction s arbitrary: a)
  case Nil
  show ?case by simp
next
  case (Cons c s)
  have "a \<le> 10 * a + digit_value c" by simp
  also have "\<dots> \<le> foldl (\<lambda>a c. 10 * a + digit_value c) (10 * a + digit_value c) s"
    by (rule Cons.IH)
  finally show ?case by simp
qed

lemma decimal_value_pos:
  assumes "s \<noteq> []" and "49 \<le> (of_char (hd s) :: nat)"
  shows "1 \<le> decimal_value s"
proof -
  obtain c cs where s: "s = c # cs" using assms(1) by (cases s) auto
  have "1 \<le> digit_value c" using assms(2) s by (simp add: digit_value_def)
  also have "\<dots> \<le> foldl (\<lambda>a c. 10 * a + digit_value c) (digit_value c) cs"
    by (rule decimal_value_ge)
  finally show ?thesis by (simp add: s decimal_value_def)
qed

lemma canonical_digits10: "canonical s \<Longrightarrow> digits10 (decimal_value s) = s"
proof (induction s rule: rev_induct)
  case Nil
  then show ?case by (simp add: canonical_def)
next
  case (snoc c xs)
  from snoc.prems have dc: "is_digit c" and dx: "list_all is_digit xs"
    by (simp_all add: canonical_def)
  show ?case
  proof (cases "xs = []")
    case True
    then show ?thesis
      using dc by (simp add: decimal_value_def digits10_small is_digit_value is_digit_char_of)
  next
    case False
    with snoc.prems have h: "49 \<le> (of_char (hd xs) :: nat)"
      by (auto simp: canonical_def)
    with False dx have cx: "canonical xs" by (simp add: canonical_def)
    then have ih: "digits10 (decimal_value xs) = xs" by (rule snoc.IH)
    have pos: "1 \<le> decimal_value xs" using False h by (rule decimal_value_pos)
    have lt: "digit_value c < 10" using dc by (rule is_digit_value)
    have big: "10 \<le> 10 * decimal_value xs + digit_value c" using pos by simp
    have dv: "(10 * decimal_value xs + digit_value c) div 10 = decimal_value xs"
      using lt by simp
    have md: "(10 * decimal_value xs + digit_value c) mod 10 = digit_value c"
      using lt by simp
    show ?thesis
      unfolding decimal_value_snoc digits10_step [OF big] dv md ih
      using dc by (simp add: is_digit_char_of)
  qed
qed

lemma hundredths_text:
  assumes "hundredths s = Some q"
  shows "s = digits10 (q div 100) @ ''.'' @
               [char_of (48 + q mod 100 div 10), char_of (48 + q mod 10)]"
proof -
  define ip where "ip = takeWhile (\<lambda>c. c \<noteq> CHR ''.'') s"
  define fp where "fp = dropWhile (\<lambda>c. c \<noteq> CHR ''.'') s"
  have s: "s = ip @ fp" by (simp add: ip_def fp_def)
  from assms obtain p d1 d2 where fp: "fp = [p, d1, d2]"
    and c: "canonical ip" "is_digit d1" "is_digit d2"
    and q: "q = 100 * decimal_value ip + 10 * digit_value d1 + digit_value d2"
    unfolding hundredths_def ip_def [symmetric] fp_def [symmetric]
    by (auto simp: Let_def split: list.splits if_splits)
  have "\<not> (hd fp \<noteq> CHR ''.'')"
    unfolding fp_def by (rule hd_dropWhile) (simp add: fp_def [symmetric] fp)
  then have p: "p = CHR ''.''" by (simp add: fp)
  have a: "digit_value d1 < 10" and b: "digit_value d2 < 10"
    using c by (simp_all add: is_digit_value)
  have lo: "10 * digit_value d1 + digit_value d2 < 100" using a b by simp
  have q': "q = 100 * decimal_value ip + (10 * digit_value d1 + digit_value d2)"
    using q by simp
  have "q div 100 = decimal_value ip" unfolding q' using lo by simp
  moreover have "q mod 100 div 10 = digit_value d1"
  proof -
    have "q mod 100 = 10 * digit_value d1 + digit_value d2" unfolding q' using lo by simp
    then show ?thesis using b by simp
  qed
  moreover have "q mod 10 = digit_value d2"
  proof -
    have q'': "q = 10 * (10 * decimal_value ip + digit_value d1) + digit_value d2"
      using q by simp
    have r: "\<And>m. (10 * m + digit_value d2) mod 10 = digit_value d2"
      using b by simp
    show ?thesis unfolding q'' by (rule r)
  qed
  ultimately show ?thesis
    using c s fp p by (simp add: canonical_digits10 is_digit_char_of)
qed

lemma read_size_text:
  assumes "read_size s = Some (q, u)"
  shows "s = digits10 (q div 100) @ ''.'' @
               [char_of (48 + q mod 100 div 10), char_of (48 + q mod 10)] @ '' '' @ u"
proof -
  define num where "num = takeWhile (\<lambda>c. c \<noteq> CHR '' '') s"
  define rest where "rest = dropWhile (\<lambda>c. c \<noteq> CHR '' '') s"
  have s: "s = num @ rest" by (simp add: num_def rest_def)
  from assms obtain sp where rest: "rest = sp # u" and h: "hundredths num = Some q"
    unfolding read_size_def num_def [symmetric] rest_def [symmetric]
    by (auto simp: Let_def split: list.splits)
  have "\<not> (hd rest \<noteq> CHR '' '')"
    unfolding rest_def by (rule hd_dropWhile) (simp add: rest_def [symmetric] rest)
  then have sp: "sp = CHR '' ''" by (simp add: rest)
  show ?thesis
    using s rest sp hundredths_text [OF h] by simp
qed

lemma read_size_inj: "read_size s = Some r \<Longrightarrow> read_size t = Some r \<Longrightarrow> s = t"
proof -
  assume a: "read_size s = Some r" and b: "read_size t = Some r"
  obtain q u where r: "r = (q, u)" by (cases r) auto
  show ?thesis
    using read_size_text [of s q u] read_size_text [of t q u] a b r by simp
qed

subsection \<open>A size that rounds up to the next thousand\<close>

lemma get_readable_size_1048571: "get_readable_size 1048571 = ''1024.00 KB''"
proof -
  have r0: "round_half_even ((1048571 / 1024 :: rat) * 100) = 102400"
    by code_simp
  have r: "nat (round_half_even ((1048571 / 1024 :: rat) * 100)) = 102400"
    unfolding r0 by simp
  have v: "of_char CHR ''0'' = (48::nat)" "of_char CHR ''1'' = (49::nat)"
    "of_char CHR ''2'' = (50::nat)" "of_char CHR ''4'' = (52::nat)"
    by simp_all
  have ch: "char_of (48::nat) = CHR ''0''" "char_of (49::nat) = CHR ''1''"
    "char_of (50::nat) = CHR ''2''" "char_of (52::nat) = CHR ''4''"
    unfolding v [symmetric] by (rule char_of_char)+
  have d: "digits10 1024 = ''1024''"
    by (simp add: digits10_step digits10_small ch)
  have "fmt2 (1048571 / 1024) = ''1024.00''"
    using fmt2_text [of "1048571 / 1024" 102400] r d ch by simp
  moreover have "get_readable_size 1048571
      = fmt2 (of_int 1048571 / 1024 ^ 1) @ '' '' @ [''B'', ''KB'', ''MB'', ''GB'', ''TB'', ''PB''] ! 1"
    by (rule get_readable_size_fmt2) simp_all
  ultimately show ?thesis by simp
qed

subsection \<open>Units and rounding\<close>

text \<open>
  C9. \<open>get_readable_size\<close> divides by 1024 along \<open>B, KB, MB, GB, TB, PB\<close> and prints two
  decimal places. For a size from \<open>1024 ^ k\<close> up to \<open>1024 ^ (k + 1)\<close> (from 0 for \<open>B\<close>, and
  without upper limit for \<open>PB\<close>) the text reads as a number of hundredths \<open>q\<close> followed
  by the \<open>k\<close>-th unit, where \<open>q / 100\<close> is the size divided by \<open>1024 ^ k\<close> rounded to the
  nearest hundredth, a tie going to the even one; and a text is determined by what it
  reads as. 0 gives \<open>0.00 B\<close>, 1536 gives \<open>1.50 KB\<close>, 1073741824 gives \<open>1.00 GB\<close>; 1152
  gives \<open>1.12 KB\<close> and 1048571 gives \<open>1024.00 KB\<close>.
\<close>

theorem get_readable_size_units:
  "get_readable_size 0 = ''0.00 B'' \<and>
   get_readable_size 1536 = ''1.50 KB'' \<and>
   get_readable_size 1073741824 = ''1.00 GB'' \<and>
   get_readable_size 1152 = ''1.12 KB'' \<and>
   get_readable_size 1048571 = ''1024.00 KB'' \<and>
   (0 \<le> n \<and> n < 2 ^ 53 \<and> k \<le> 5 \<and> (k = 0 \<or> 1024 ^ k \<le> n) \<and> (k = 5 \<or> n < 1024 ^ Suc k) \<longrightarrow>
      (\<exists>q. read_size (get_readable_size n)
              = Some (q, [''B'', ''KB'', ''MB'', ''GB'', ''TB'', ''PB''] ! k) \<and>
            \<bar>of_nat q - 100 * (of_int n :: rat) / 1024 ^ k\<bar> \<le> 1 / 2 \<and>
            (\<bar>of_nat q - 100 * (of_int n :: rat) / 1024 ^ k\<bar> = 1 / 2 \<longrightarrow> even q))) \<and>
   (read_size s = Some r \<and> read_size t = Some r \<longrightarrow> s = t)"
proof (intro conjI impI)
  show "get_readable_size 0 = ''0.00 B''" by code_simp
  show "get_readable_size 1536 = ''1.50 KB''" by code_simp
  show "get_readable_size 1073741824 = ''1.00 GB''" by code_simp
  show "get_readable_size 1152 = ''1.12 KB''" by code_simp
  show "get_readable_size 1048571 = ''1024.00 KB''" by (rule get_readable_size_1048571)
  show "s = t" if "read_size s = Some r \<and> read_size t = Some r"
    using that read_size_inj by blast
  show "\<exists>q. read_size (get_readable_size n)
              = Some (q, [''B'', ''KB'', ''MB'', ''GB'', ''TB'', ''PB''] ! k) \<and>
            \<bar>of_nat q - 100 * (of_int n :: rat) / 1024 ^ k\<bar> \<le> 1 / 2 \<and>
            (\<bar>of_nat q - 100 * (of_int n :: rat) / 1024 ^ k\<bar> = 1 / 2 \<longrightarrow> even q)"
    if h: "0 \<le> n \<and> n < 2 ^ 53 \<and> k \<le> 5 \<and> (k = 0 \<or> 1024 ^ k \<le> n) \<and>
           (k = 5 \<or> n < 1024 ^ Suc k)"
  proof -
    define x :: rat where "x = of_int n / 1024 ^ k"
    define z where "z = round_half_even (x * 100)"
    have x0: "0 \<le> x" using h by (simp add: x_def)
    then have z0: "0 \<le> z" unfolding z_def by (intro round_half_even_nonneg) simp
    have y: "x * 100 = 100 * (of_int n :: rat) / 1024 ^ k" by (simp add: x_def)
    have q: "(of_nat (nat z) :: rat) = of_int z" using z0 by simp
    have "get_readable_size n = fmt2 x @ '' '' @ [''B'', ''KB'', ''MB'', ''GB'', ''TB'', ''PB''] ! k"
      unfolding x_def using h by (intro get_readable_size_fmt2) simp_all
    then have "read_size (get_readable_size n)
                 = Some (nat z, [''B'', ''KB'', ''MB'', ''GB'', ''TB'', ''PB''] ! k)"
      using read_size_written [OF x0] by (simp add: z_def)
    moreover have "\<bar>of_nat (nat z) - 100 * (of_int n :: rat) / 1024 ^ k\<bar> \<le> 1 / 2"
    proof -
      have "\<bar>of_int z - x * 100\<bar> \<le> 1 / 2"
        unfolding z_def by (rule round_half_even_nearest)
      then show ?thesis by (simp only: q y)
    qed
    moreover have "even (nat z)"
      if "\<bar>of_nat (nat z) - 100 * (of_int n :: rat) / 1024 ^ k\<bar> = 1 / 2"
    proof -
      from that have "\<bar>of_int z - x * 100\<bar> = 1 / 2"
        by (simp only: q y)
      then have "even z" unfolding z_def by (rule round_half_even_tie)
      then show ?thesis using z0 by (simp add: even_nat_iff)
    qed
    ultimately show ?thesis by blast
  qed
qed

text \<open>
  C9, at 5 bytes, at 1152 bytes (a tie between 1.12 and 1.13), at \<open>2 ^ 52\<close> bytes, and at
  the text \<open>1.50 KB\<close> read twice.
\<close>

theorem get_readable_size_units_witness:
  "read_size (get_readable_size 5) = Some (500, ''B'') \<and>
   read_size (get_readable_size 1152) = Some (112, ''KB'') \<and>
   read_size (get_readable_size (2 ^ 52)) = Some (400, ''PB'') \<and>
   read_size ''1.50 KB'' = Some (150, ''KB'')"
proof -
  have a: "read_size (get_readable_size 5) = Some (500, ''B'')" by code_simp
  have b: "read_size (get_readable_size 1152) = Some (112, ''KB'')" by code_simp
  have c: "read_size (get_readable_size (2 ^ 52)) = Some (400, ''PB'')" by code_simp
  have d: "read_size ''1.50 KB'' = Some (150, ''KB'')" by code_simp
  show ?thesis
    using a b c d
      get_readable_size_units [of 5 0 "''1.50 KB''" "(150, ''KB'')" "''1.50 KB''"]
      get_readable_size_units [of 1152 1 "''1.50 KB''" "(150, ''KB'')" "''1.50 KB''"]
      get_readable_size_units [of "2 ^ 52" 5 "''1.50 KB''" "(150, ''KB'')" "''1.50 KB''"]
    by simp
qed


section \<open>The order of prompts and reports in \<open>handle_rm\<close>\<close>












end
